theory Spec2Isabelle
  imports Main
begin

section \<open>Values, identifiers and the syntax tree\<close>

text \<open>
  Pundle's loader for JavaScript files (the function given to \<^verbatim>\<open>createLoader\<close>) parses
  one file with Babylon, walks the tree with babel-traverse, rewrites dependency
  references in place and prints the tree again. Line numbers are those of the
  loader's source. The model keeps the tree as a datatype and passes the loader's mutable state
  (the \<^verbatim>\<open>imports\<close> and \<^verbatim>\<open>chunks\<close> arrays, and the state behind
  \<^verbatim>\<open>this.getImportRequest\<close> and \<^verbatim>\<open>this.getNextUniqueID\<close>) explicitly.
\<close>

text \<open>What a node's \<^verbatim>\<open>value\<close> property can hold; \<open>Undefined\<close> when the node has none.\<close>

datatype jsval = Undefined | BoolV bool | NumV int | StrV string

text \<open>The identifier of a request and the token of \<^verbatim>\<open>getNextUniqueID\<close>: a number or a string.\<close>

datatype ident = NumId int | StrId string

fun digits :: "nat \<Rightarrow> string" where
  "digits n = (if n < 10 then [''0123456789'' ! n]
     else digits (n div 10) @ [''0123456789'' ! (n mod 10)])"

declare digits.simps [simp del]

text \<open>\<^verbatim>\<open>id.toString()\<close>: a string is itself, a number is written in decimal.\<close>

definition toString :: "ident \<Rightarrow> string" where
  "toString i = (case i of StrId s \<Rightarrow> s
     | NumId k \<Rightarrow> (if k < 0 then CHR ''-'' # digits (nat (- k)) else digits (nat k)))"

text \<open>
  A node carries its shape (the node type with its child nodes), its \<^verbatim>\<open>value\<close>
  property and the names that Babel's scope registers for the scope the node opens
  (empty for a node that opens none). \<open>Other\<close> is any node type that the loader does
  not look into, with its child nodes in Babel's visiting order; an array's holes are
  \<open>None\<close>.
\<close>

datatype node = Node (shape: shape) (val: jsval) (bindings: "string list")
and shape =
    Identifier string
  | StringLiteral
  | MemberExpression node node
  | CallExpression node "node list"
  | ArrayExpression "node option list"
  | FunctionExpression "node option" "node list" node
  | ImportDeclaration "node list" node
  | Other string "node list"

definition node_type :: "node \<Rightarrow> string" where
  "node_type n = (case shape n of
       Identifier x \<Rightarrow> ''Identifier''
     | StringLiteral \<Rightarrow> ''StringLiteral''
     | MemberExpression obj prp \<Rightarrow> ''MemberExpression''
     | CallExpression callee args \<Rightarrow> ''CallExpression''
     | ArrayExpression elements \<Rightarrow> ''ArrayExpression''
     | FunctionExpression fid params body \<Rightarrow> ''FunctionExpression''
     | ImportDeclaration specifiers source \<Rightarrow> ''ImportDeclaration''
     | Other kind cs \<Rightarrow> kind)"

text \<open>\<^verbatim>\<open>node.name\<close>: only an identifier has one.\<close>

definition name_of :: "node \<Rightarrow> string option" where
  "name_of n = (case shape n of Identifier x \<Rightarrow> Some x | _ \<Rightarrow> None)"

text \<open>\<^verbatim>\<open>node.value = v\<close>.\<close>

definition set_val :: "node \<Rightarrow> jsval \<Rightarrow> node" where
  "set_val n v = Node (shape n) v (bindings n)"

text \<open>\<^verbatim>\<open>xs[i]\<close>, undefined out of range.\<close>

definition at :: "'a list \<Rightarrow> nat \<Rightarrow> 'a option" where
  "at xs i = (if i < length xs then Some (xs ! i) else None)"

subsection \<open>The child nodes that babel-traverse visits\<close>

primrec present :: "'a option list \<Rightarrow> 'a list" where
  "present [] = []"
| "present (x # xs) = (case x of None \<Rightarrow> present xs | Some y \<Rightarrow> y # present xs)"

fun refill :: "'a option list \<Rightarrow> 'a list \<Rightarrow> 'a option list" where
  "refill [] cs = []"
| "refill (None # es) cs = None # refill es cs"
| "refill (Some e # es) [] = Some e # refill es []"
| "refill (Some e # es) (c # cs) = Some c # refill es cs"

text \<open>The children of a node, in the order of Babel's visitor keys.\<close>

definition children :: "node \<Rightarrow> node list" where
  "children n = (case shape n of
       Identifier x \<Rightarrow> []
     | StringLiteral \<Rightarrow> []
     | MemberExpression obj prp \<Rightarrow> [obj, prp]
     | CallExpression callee args \<Rightarrow> callee # args
     | ArrayExpression elements \<Rightarrow> present elements
     | FunctionExpression fid params body \<Rightarrow> present [fid] @ params @ [body]
     | ImportDeclaration specifiers source \<Rightarrow> specifiers @ [source]
     | Other kind cs \<Rightarrow> cs)"

text \<open>The node with its children overwritten, as the walk leaves them.\<close>

definition with_children :: "node \<Rightarrow> node list \<Rightarrow> node" where
  "with_children n cs = (if length cs \<noteq> length (children n) then n else
     Node (case shape n of
       Identifier x \<Rightarrow> Identifier x
     | StringLiteral \<Rightarrow> StringLiteral
     | MemberExpression obj prp \<Rightarrow> MemberExpression (cs ! 0) (cs ! 1)
     | CallExpression callee args \<Rightarrow> CallExpression (hd cs) (tl cs)
     | ArrayExpression elements \<Rightarrow> ArrayExpression (refill elements cs)
     | FunctionExpression fid params body \<Rightarrow>
         (case fid of
            None \<Rightarrow> FunctionExpression None (butlast cs) (last cs)
          | Some i \<Rightarrow> FunctionExpression (Some (hd cs)) (butlast (tl cs)) (last cs))
     | ImportDeclaration specifiers source \<Rightarrow> ImportDeclaration (butlast cs) (last cs)
     | Other kind ds \<Rightarrow> Other kind cs) (val n) (bindings n))"

text \<open>The number of nodes of a tree; the \<^verbatim>\<open>value\<close> properties do not count.\<close>

primrec nsize :: "node \<Rightarrow> nat" and ssize :: "shape \<Rightarrow> nat" where
  "nsize (Node sh v bs) = Suc (ssize sh)"
| "ssize (Identifier x) = 0"
| "ssize StringLiteral = 0"
| "ssize (MemberExpression obj prp) = nsize obj + nsize prp"
| "ssize (CallExpression callee args) = nsize callee + sum_list (map nsize args)"
| "ssize (ArrayExpression elements) = sum_list (map (case_option 0 id) (map (map_option nsize) elements))"
| "ssize (FunctionExpression fid params body) =
     case_option 0 id (map_option nsize fid) + sum_list (map nsize params) + nsize body"
| "ssize (ImportDeclaration specifiers source) = sum_list (map nsize specifiers) + nsize source"
| "ssize (Other kind cs) = sum_list (map nsize cs)"

section \<open>The loader's surroundings\<close>

text \<open>
  \<^verbatim>\<open>FileImport\<close> and \<^verbatim>\<open>FileChunk\<close> of pundle-api: the request that
  \<^verbatim>\<open>getImportRequest\<close> returns, and the chunk that \<^verbatim>\<open>processSplit\<close> builds.
\<close>

record FileImport =
  import_id :: ident
  request :: jsval
  from_file :: string

record FileChunk =
  chunk_name :: jsval
  chunk_entry :: "FileImport list"
  chunk_imports :: "FileImport list"

record File =
  filePath :: string
  contents :: string

text \<open>What the loader can throw: the two issues of pundle-api, a \<^verbatim>\<open>TypeError\<close> of the
  JavaScript runtime, and whatever \<^verbatim>\<open>getImportRequest\<close> throws.\<close>

datatype error =
    FileIssue string nat nat string string
  | MessageIssue string string
  | TypeError
  | ResolutionError string

text \<open>The error that Babylon throws: a message and, for a syntax error, a location.\<close>

record parse_error =
  message :: string
  loc :: "(nat \<times> nat) option"

datatype literal = StringLit string | NumericLit int | BooleanLit bool | NullLit

record config =
  extensions :: "string list"

text \<open>
  Everything the loader calls and does not define: the compilation it runs in
  (\<^verbatim>\<open>this.config\<close>, \<^verbatim>\<open>this.getImportRequest\<close>, \<^verbatim>\<open>this.getNextUniqueID\<close>, whose
  state is \<open>'s\<close>), the helpers of pundle-api, and Babylon and babel-generator.
  \<open>parseLiteral\<close> is the parser on the source of a replacement.
\<close>

record 's env =
  rootDirectory :: string
  replaceVariables :: "string \<Rightarrow> string option"
  getImportRequest :: "jsval \<Rightarrow> string \<Rightarrow> 's \<Rightarrow> error + (FileImport \<times> 's)"
  getNextUniqueID :: "'s \<Rightarrow> ident \<times> 's"
  shouldProcess :: "string \<Rightarrow> string \<Rightarrow> config \<Rightarrow> bool"
  getRelativeFilePath :: "string \<Rightarrow> string \<Rightarrow> string"
  parse :: "string \<Rightarrow> string \<Rightarrow> parse_error + node"
  parseLiteral :: "string \<Rightarrow> literal"
  generate :: "node \<Rightarrow> string \<Rightarrow> string \<times> string"

text \<open>The arrays \<^verbatim>\<open>chunks\<close> and \<^verbatim>\<open>imports\<close> that the loader fills while it walks, and
  the state of the compilation.\<close>

record collected =
  file_chunks :: "FileChunk list"
  file_imports :: "FileImport list"

record 's state = collected +
  cap :: 's

record LoaderResult = collected +
  result_contents :: string
  sourceMap :: string

section \<open>The helpers\<close>

text \<open>
  Modelled from the spec: \<^verbatim>\<open>getName\<close> of \<^verbatim>\<open>./helpers\<close>, which is not among the
  sources. The spec has it compute the fully-qualified name of a node by walking
  member-expression chains (\<^verbatim>\<open>a.b.c\<close> gives \<^verbatim>\<open>"a.b.c"\<close>); a node that is neither an
  identifier nor a member expression contributes the empty name.
\<close>

fun getName :: "node \<Rightarrow> string" where
  "getName (Node (Identifier x) v bs) = x"
| "getName (Node (MemberExpression obj prp) v bs) = getName obj @ ''.'' @ getName prp"
| "getName (Node sh v bs) = ''''"

primrec literal_node :: "literal \<Rightarrow> node" where
  "literal_node (StringLit s) = Node StringLiteral (StrV s) []"
| "literal_node (NumericLit i) = Node (Other ''NumericLiteral'' []) (NumV i) []"
| "literal_node (BooleanLit b) = Node (Other ''BooleanLiteral'' []) (BoolV b) []"
| "literal_node NullLit = Node (Other ''NullLiteral'' []) Undefined []"

text \<open>
  Modelled from the spec: \<^verbatim>\<open>getParsedReplacement\<close> of \<^verbatim>\<open>./helpers\<close>, which is not
  among the sources. The spec has the replacement table map a name to the source of a
  literal expression, and the helper return the freshly parsed literal expression tree
  built from that source.
\<close>

definition getParsedReplacement :: "'s env \<Rightarrow> string \<Rightarrow> node" where
  "getParsedReplacement e raw = literal_node (parseLiteral e raw)"

section \<open>The loader\<close>

definition RESOLVE_NAMES :: "string set" where
  "RESOLVE_NAMES =
     {''require'', ''require.ensure'', ''require.resolve'', ''module.hot.accept'', ''module.hot.decline''}"

definition RESOLVE_NAMES_CHUNK :: "string set" where
  "RESOLVE_NAMES_CHUNK = {''require.ensure''}"

definition RESOLVE_NAMES_SENSITIVE :: "string set" where
  "RESOLVE_NAMES_SENSITIVE = {''require'', ''require.resolve''}"

text \<open>\<^verbatim>\<open>path.scope.hasBinding(name)\<close>, on the names bound in the scopes around the path.\<close>

definition hasBinding :: "string list \<Rightarrow> string \<Rightarrow> bool" where
  "hasBinding scope x = (x \<in> set scope)"

subsection \<open>processResolve\<close>

definition processResolve ::
  "'s env \<Rightarrow> string \<Rightarrow> node \<Rightarrow> 's state \<Rightarrow> error + (node \<times> 's state)" where
  "processResolve e fp n st =
     (case getImportRequest e (val n) fp (cap st) of
        Inl err \<Rightarrow> Inl err
      | Inr (req, c) \<Rightarrow>
          Inr (set_val n (StrV (toString (import_id req))),
               st\<lparr>file_imports := file_imports st @ [req], cap := c\<rparr>))"

subsection \<open>processSplit\<close>

text \<open>
  The visitor of the nested walk over the callback (lines 82 to 88):
  \<open>alias\<close> is \<^verbatim>\<open>path.node.arguments[1].params[0].name\<close>, undefined when the first
  parameter is not an identifier. Reading \<^verbatim>\<open>.value\<close> of a missing first argument
  is a \<^verbatim>\<open>TypeError\<close>.
\<close>

definition nestedCall ::
  "'s env \<Rightarrow> string \<Rightarrow> string option \<Rightarrow> node \<Rightarrow> FileChunk \<times> 's \<Rightarrow> error + (node \<times> FileChunk \<times> 's)" where
  "nestedCall e fp alias n cs =
     (case shape n of
        CallExpression callee args \<Rightarrow>
          if name_of callee = alias then
            (case args of
               [] \<Rightarrow> Inl TypeError
             | a # rest \<Rightarrow>
                 (case getImportRequest e (val a) fp (snd cs) of
                    Inl err \<Rightarrow> Inl err
                  | Inr (req, c) \<Rightarrow>
                      Inr (Node (CallExpression callee (set_val a (StrV (toString (import_id req))) # rest))
                             (val n) (bindings n),
                           (fst cs)\<lparr>chunk_imports := chunk_imports (fst cs) @ [req]\<rparr>, c)))
          else Inr (n, cs)
      | _ \<Rightarrow> Inr (n, cs))"

lemma nsize_set_val [simp]: "nsize (set_val n v) = nsize n"
  by (cases n) (simp add: set_val_def)

lemma nsize_nestedCall:
  "nestedCall e fp alias n cs = Inr (n', cs') \<Longrightarrow> nsize n' = nsize n"
  by (cases n) (auto simp: nestedCall_def split: shape.splits list.splits sum.splits if_splits prod.splits)

lemma nsize_present: "sum_list (map nsize (present es)) = sum_list (map (case_option 0 id) (map (map_option nsize) es))"
  by (induction es) (auto split: option.splits)

lemma nsize_children: "nsize n = Suc (sum_list (map nsize (children n)))"
  by (cases n) (auto simp: children_def nsize_present split: shape.splits option.splits)

lemma nsize_pos [simp]: "0 < nsize n"
  by (cases n) simp

lemma nsize_child: "c \<in> set (children n) \<Longrightarrow> nsize c < nsize n"
  using member_le_sum_list [of "nsize c" "map nsize (children n)"]
  by (simp add: nsize_children less_Suc_eq_le)

text \<open>
  The nested walk \<^verbatim>\<open>path.scope.traverse(callback, {CallExpression})\<close>: every node is
  entered before its children, and the children of the node as the visitor left it
  are walked in order.
\<close>

function nested_traverse ::
    "'s env \<Rightarrow> string \<Rightarrow> string option \<Rightarrow> node \<Rightarrow> FileChunk \<times> 's \<Rightarrow> error + (node \<times> FileChunk \<times> 's)"
  and nested_traverse_list ::
    "'s env \<Rightarrow> string \<Rightarrow> string option \<Rightarrow> node list \<Rightarrow> FileChunk \<times> 's \<Rightarrow> error + (node list \<times> FileChunk \<times> 's)"
where
  "nested_traverse e fp alias n cs =
     (case nestedCall e fp alias n cs of
        Inl err \<Rightarrow> Inl err
      | Inr (n', cs') \<Rightarrow>
          (case nested_traverse_list e fp alias (children n') cs' of
             Inl err \<Rightarrow> Inl err
           | Inr (ks, cs'') \<Rightarrow> Inr (with_children n' ks, cs'')))"
| "nested_traverse_list e fp alias [] cs = Inr ([], cs)"
| "nested_traverse_list e fp alias (k # ks) cs =
     (case nested_traverse e fp alias k cs of
        Inl err \<Rightarrow> Inl err
      | Inr (k', cs') \<Rightarrow>
          (case nested_traverse_list e fp alias ks cs' of
             Inl err \<Rightarrow> Inl err
           | Inr (ks', cs'') \<Rightarrow> Inr (k' # ks', cs'')))"
  by pat_completeness auto
termination
proof (relation "measure (\<lambda>x. case x of
          Inl (e, fp, alias, n, cs) \<Rightarrow> 2 * nsize n
        | Inr (e, fp, alias, ks, cs) \<Rightarrow> Suc (2 * sum_list (map nsize ks)))", goal_cases)
  case 1
  show ?case by simp
next
  case (2 e fp al n cs x n' cs')
  then have "nsize n' = nsize n" by (auto dest: nsize_nestedCall)
  with nsize_children [of n'] have "nsize n = Suc (sum_list (map nsize (children n')))" by simp
  then show ?case by simp
next
  case 3
  then show ?case by simp
next
  case 4
  then show ?case by simp
qed

declare nested_traverse.simps [simp del]

lemma present_refill: "length cs = length (present es) \<Longrightarrow> present (refill es cs) = cs"
  by (induction es cs rule: refill.induct) (auto split: option.splits)

lemma hd_butlast_tl_last: "Suc (Suc (length ps)) = length cs \<Longrightarrow> hd cs # butlast (tl cs) @ [last cs] = cs"
  by (cases cs) auto

lemma children_with_children:
  "length cs = length (children n) \<Longrightarrow> children (with_children n cs) = cs"
proof (cases n)
  case (Node sh v bs)
  assume len: "length cs = length (children n)"
  show ?thesis
  proof (cases sh)
    case (MemberExpression obj prp)
    with Node len have "length cs = 2" by (simp add: children_def)
    then obtain a b where "cs = [a, b]"
      by (metis (no_types) One_nat_def Suc_1 length_0_conv length_Suc_conv)
    with Node MemberExpression show ?thesis by (simp add: children_def with_children_def)
  next
    case (CallExpression callee args)
    with Node len have "cs \<noteq> []" by (auto simp: children_def)
    with Node CallExpression len show ?thesis by (simp add: children_def with_children_def)
  next
    case (ArrayExpression elements)
    with Node len show ?thesis by (simp add: children_def with_children_def present_refill)
  next
    case (FunctionExpression fid params body)
    with Node len have ne: "cs \<noteq> []" by (auto simp: children_def)
    show ?thesis
    proof (cases fid)
      case None
      with Node FunctionExpression len ne show ?thesis
        by (simp add: children_def with_children_def)
    next
      case (Some i)
      with Node FunctionExpression len have "Suc (Suc (length params)) = length cs"
        by (simp add: children_def)
      from hd_butlast_tl_last [OF this] Node FunctionExpression Some len show ?thesis
        by (simp add: children_def with_children_def)
    qed
  next
    case (ImportDeclaration specifiers source)
    with Node len have "cs \<noteq> []" by (auto simp: children_def)
    with Node ImportDeclaration len show ?thesis by (simp add: children_def with_children_def)
  qed (use Node len in \<open>simp_all add: children_def with_children_def\<close>)
qed

lemma nsize_with_children:
  "map nsize cs = map nsize (children n) \<Longrightarrow> nsize (with_children n cs) = nsize n"
proof -
  assume eq: "map nsize cs = map nsize (children n)"
  then have "length cs = length (children n)" by (rule map_eq_imp_length_eq)
  then have "children (with_children n cs) = cs" by (rule children_with_children)
  with eq show ?thesis
    by (simp add: nsize_children [of "with_children n cs"] nsize_children [of n])
qed

lemma nsize_nested_traverse:
  "nested_traverse e fp al n cs = Inr (n', cs') \<Longrightarrow> nsize n' = nsize n"
  "nested_traverse_list e fp al ks cs = Inr (ks', cs') \<Longrightarrow> map nsize ks' = map nsize ks"
proof (induction e fp al n cs and e fp al ks cs arbitrary: n' cs' and ks' cs'
    rule: nested_traverse_nested_traverse_list.induct)
  case (1 e fp al n cs)
  from "1.prems" obtain m ms js where
    v: "nestedCall e fp al n cs = Inr (m, ms)" and
    l: "nested_traverse_list e fp al (children m) ms = Inr (js, cs')" and
    n': "n' = with_children m js"
    by (auto simp: nested_traverse.simps [of e fp al n] split: sum.splits prod.splits)
  from "1.IH" [OF v refl l] have "map nsize js = map nsize (children m)" .
  then have "nsize (with_children m js) = nsize m" by (rule nsize_with_children)
  with n' nsize_nestedCall [OF v] show ?case by simp
next
  case (2 e fp al cs)
  then show ?case by simp
next
  case (3 e fp al k ks cs)
  from "3.prems" obtain k' ms js where
    a: "nested_traverse e fp al k cs = Inr (k', ms)" and
    b: "nested_traverse_list e fp al ks ms = Inr (js, cs')" and
    c: "ks' = k' # js"
    by (auto split: sum.splits prod.splits)
  from "3.IH"(1) [OF a] "3.IH"(2) [OF a refl b] c show ?case by simp
qed

text \<open>
  \<^verbatim>\<open>elements.forEach\<close> of lines 75 to 79: every element is resolved and rewritten, in
  order; reading \<^verbatim>\<open>.value\<close> of a hole is a \<^verbatim>\<open>TypeError\<close>.
\<close>

fun forEach_element ::
  "'s env \<Rightarrow> string \<Rightarrow> node option list \<Rightarrow> FileChunk \<times> 's \<Rightarrow> error + (node option list \<times> FileChunk \<times> 's)" where
  "forEach_element e fp [] cs = Inr ([], cs)"
| "forEach_element e fp (None # es) cs = Inl TypeError"
| "forEach_element e fp (Some element # es) cs =
     (case getImportRequest e (val element) fp (snd cs) of
        Inl err \<Rightarrow> Inl err
      | Inr (req, c) \<Rightarrow>
          (case forEach_element e fp es ((fst cs)\<lparr>chunk_entry := chunk_entry (fst cs) @ [req]\<rparr>, c) of
             Inl err \<Rightarrow> Inl err
           | Inr (es', cs') \<Rightarrow> Inr (Some (set_val element (StrV (toString (import_id req)))) # es', cs')))"

text \<open>Lines 69 to 74: the name of the chunk, and the chunk before it is filled.\<close>

definition chunkName :: "'s env \<Rightarrow> node list \<Rightarrow> 's \<Rightarrow> jsval \<times> 's" where
  "chunkName e args c =
     (case at args 2 of
        Some a2 \<Rightarrow>
          if node_type a2 = ''StringLiteral'' then (val a2, c)
          else (StrV (toString (fst (getNextUniqueID e c))), snd (getNextUniqueID e c))
      | None \<Rightarrow> (StrV (toString (fst (getNextUniqueID e c))), snd (getNextUniqueID e c)))"

text \<open>Lines 80 to 90: the nested walk, when the second argument is a function
  expression with a parameter.\<close>

definition processCallback ::
  "'s env \<Rightarrow> string \<Rightarrow> node \<Rightarrow> FileChunk \<times> 's \<Rightarrow> error + (node \<times> FileChunk \<times> 's)" where
  "processCallback e fp a1 cs =
     (case shape a1 of
        FunctionExpression fid params body \<Rightarrow>
          if params \<noteq> [] then nested_traverse e fp (name_of (hd params)) a1 cs
          else Inr (a1, cs)
      | _ \<Rightarrow> Inr (a1, cs))"

definition processSplit ::
  "'s env \<Rightarrow> string \<Rightarrow> node \<Rightarrow> 's state \<Rightarrow> error + (node \<times> 's state)" where
  "processSplit e fp n st =
     (case shape n of
        CallExpression callee args \<Rightarrow>
          (case chunkName e args (cap st) of (nm, c0) \<Rightarrow>
          (case at args 0 of
             None \<Rightarrow> Inl TypeError
           | Some a0 \<Rightarrow>
               (case shape a0 of
                  ArrayExpression elements \<Rightarrow>
                    (case forEach_element e fp elements
                            (\<lparr>chunk_name = nm, chunk_entry = [], chunk_imports = []\<rparr>, c0) of
                       Inl err \<Rightarrow> Inl err
                     | Inr (elements', cs1) \<Rightarrow>
                         (case at args 1 of
                            None \<Rightarrow>
                              Inr (Node (CallExpression callee
                                     (args[0 := Node (ArrayExpression elements') (val a0) (bindings a0)]))
                                     (val n) (bindings n),
                                   st\<lparr>file_chunks := file_chunks st @ [fst cs1], cap := snd cs1\<rparr>)
                          | Some a1 \<Rightarrow>
                              (case processCallback e fp a1 cs1 of
                                 Inl err \<Rightarrow> Inl err
                               | Inr (a1', cs2) \<Rightarrow>
                                   Inr (Node (CallExpression callee
                                          (args[0 := Node (ArrayExpression elements') (val a0) (bindings a0),
                                                1 := a1']))
                                          (val n) (bindings n),
                                        st\<lparr>file_chunks := file_chunks st @ [fst cs2], cap := snd cs2\<rparr>))))
                | _ \<Rightarrow> Inl TypeError)))
      | _ \<Rightarrow> Inl TypeError)"

subsection \<open>processReplaceable\<close>

text \<open>What a visitor leaves at its path: the node it was given, perhaps with new values
  inside, or a node put in its place by \<^verbatim>\<open>path.replaceWith\<close>.\<close>

datatype outcome = Continue node | Replaced node

definition processReplaceable :: "'s env \<Rightarrow> node \<Rightarrow> outcome" where
  "processReplaceable e n =
     (case replaceVariables e (getName n) of
        Some raw \<Rightarrow> Replaced (getParsedReplacement e raw)
      | None \<Rightarrow> Continue n)"

subsection \<open>The visitors of the walk\<close>

text \<open>The \<^verbatim>\<open>CallExpression\<close> visitor, lines 104 to 121.\<close>

definition visitCallExpression ::
  "'s env \<Rightarrow> string \<Rightarrow> string list \<Rightarrow> node \<Rightarrow> 's state \<Rightarrow> error + (node \<times> 's state)" where
  "visitCallExpression e fp scope n st =
     (case shape n of
        CallExpression callee args \<Rightarrow>
          if getName callee \<notin> RESOLVE_NAMES then Inr (n, st)
          else
            (case args of
               [] \<Rightarrow> Inr (n, st)
             | parameter # rest \<Rightarrow>
                 if node_type parameter \<noteq>
                      (if getName callee = ''require.ensure'' then ''ArrayExpression'' else ''StringLiteral'')
                 then Inr (n, st)
                 else if getName callee \<in> RESOLVE_NAMES_SENSITIVE \<and> hasBinding scope ''require''
                 then Inr (n, st)
                 else if getName callee \<in> RESOLVE_NAMES_CHUNK then processSplit e fp n st
                 else
                   (case processResolve e fp parameter st of
                      Inl err \<Rightarrow> Inl err
                    | Inr (parameter', st') \<Rightarrow>
                        Inr (Node (CallExpression callee (parameter' # rest)) (val n) (bindings n), st')))
      | _ \<Rightarrow> Inr (n, st))"

text \<open>The \<^verbatim>\<open>ImportDeclaration\<close> visitor, lines 101 to 103.\<close>

definition visitImportDeclaration ::
  "'s env \<Rightarrow> string \<Rightarrow> node \<Rightarrow> 's state \<Rightarrow> error + (node \<times> 's state)" where
  "visitImportDeclaration e fp n st =
     (case shape n of
        ImportDeclaration specifiers source \<Rightarrow>
          (case processResolve e fp source st of
             Inl err \<Rightarrow> Inl err
           | Inr (source', st') \<Rightarrow>
               Inr (Node (ImportDeclaration specifiers source') (val n) (bindings n), st'))
      | _ \<Rightarrow> Inr (n, st))"

text \<open>The visitor object of lines 100 to 124: the visitor of the node's type, if any.\<close>

definition visit ::
  "'s env \<Rightarrow> string \<Rightarrow> string list \<Rightarrow> node \<Rightarrow> 's state \<Rightarrow> error + (outcome \<times> 's state)" where
  "visit e fp scope n st =
     (case shape n of
        ImportDeclaration specifiers source \<Rightarrow>
          (case visitImportDeclaration e fp n st of
             Inl err \<Rightarrow> Inl err
           | Inr (n', st') \<Rightarrow> Inr (Continue n', st'))
      | CallExpression callee args \<Rightarrow>
          (case visitCallExpression e fp scope n st of
             Inl err \<Rightarrow> Inl err
           | Inr (n', st') \<Rightarrow> Inr (Continue n', st'))
      | Identifier x \<Rightarrow> Inr (processReplaceable e n, st)
      | MemberExpression obj prp \<Rightarrow> Inr (processReplaceable e n, st)
      | _ \<Rightarrow> Inr (Continue n, st))"

lemma nsize_forEach_element:
  "forEach_element e fp es cs = Inr (es', cs') \<Longrightarrow>
     map (map_option nsize) es' = map (map_option nsize) es"
proof (induction e fp es cs arbitrary: es' cs' rule: forEach_element.induct)
  case (3 e fp element es cs)
  from "3.prems" obtain req c js where
    a: "getImportRequest e (val element) fp (snd cs) = Inr (req, c)" and
    b: "forEach_element e fp es ((fst cs)\<lparr>chunk_entry := chunk_entry (fst cs) @ [req]\<rparr>, c) = Inr (js, cs')" and
    c: "es' = Some (set_val element (StrV (toString (import_id req)))) # js"
    by (auto split: sum.splits prod.splits)
  from "3.IH" [OF a refl b] c show ?case by simp
qed simp_all

lemma nsize_processCallback:
  "processCallback e fp a1 cs = Inr (a1', cs') \<Longrightarrow> nsize a1' = nsize a1"
  by (auto simp: processCallback_def dest: nsize_nested_traverse(1) split: shape.splits if_splits)

lemma map_nsize_update:
  "at xs i = Some x \<Longrightarrow> nsize y = nsize x \<Longrightarrow> map nsize (xs[i := y]) = map nsize xs"
  by (auto simp: at_def map_update list_update_same_conv split: if_splits)

lemma at_update_other: "i \<noteq> j \<Longrightarrow> at (xs[i := y]) j = at xs j"
  by (simp add: at_def)

lemma nsize_processSplit:
  assumes "processSplit e fp n st = Inr (n', st')"
  shows "nsize n' = nsize n"
proof (cases n)
  case (Node sh v bs)
  with assms obtain callee args where sh: "sh = CallExpression callee args"
    by (cases sh) (auto simp: processSplit_def)
  obtain nm c0 where nm: "chunkName e args (cap st) = (nm, c0)" by (cases "chunkName e args (cap st)")
  from assms Node sh nm obtain a0 where a0: "at args 0 = Some a0"
    by (cases "at args 0") (auto simp: processSplit_def)
  from assms Node sh nm a0 obtain elements where el: "shape a0 = ArrayExpression elements"
    by (cases "shape a0") (auto simp: processSplit_def)
  from assms Node sh nm a0 el obtain elements' cs1 where
    fe: "forEach_element e fp elements (\<lparr>chunk_name = nm, chunk_entry = [], chunk_imports = []\<rparr>, c0)
           = Inr (elements', cs1)"
    by (auto simp: processSplit_def split: sum.splits)
  let ?a0 = "Node (ArrayExpression elements') (val a0) (bindings a0)"
  from nsize_forEach_element [OF fe] el have s0: "nsize ?a0 = nsize a0"
    by (cases a0) simp
  from map_nsize_update [OF a0 s0] have u0: "map nsize (args[0 := ?a0]) = map nsize args" .
  show ?thesis
  proof (cases "at args 1")
    case None
    with assms Node sh nm a0 el fe have "n' = Node (CallExpression callee (args[0 := ?a0])) v bs"
      by (auto simp: processSplit_def)
    with Node sh u0 show ?thesis by simp
  next
    case (Some a1)
    with assms Node sh nm a0 el fe obtain a1' cs2 where
      cb: "processCallback e fp a1 cs1 = Inr (a1', cs2)" and
      n': "n' = Node (CallExpression callee (args[0 := ?a0, 1 := a1'])) v bs"
      by (auto simp: processSplit_def split: sum.splits)
    from Some have "at (args[0 := ?a0]) 1 = Some a1" by (simp add: at_update_other)
    from map_nsize_update [OF this nsize_processCallback [OF cb]] u0
    have "map nsize (args[0 := ?a0, 1 := a1']) = map nsize args" by simp
    with Node sh n' show ?thesis by simp
  qed
qed

lemma nsize_processResolve:
  "processResolve e fp n st = Inr (n', st') \<Longrightarrow> nsize n' = nsize n"
  by (auto simp: processResolve_def split: sum.splits)

lemma nsize_visitCallExpression:
  "visitCallExpression e fp scope n st = Inr (n', st') \<Longrightarrow> nsize n' = nsize n"
  by (cases n)
    (auto simp: visitCallExpression_def dest: nsize_processSplit nsize_processResolve
      split: shape.splits list.splits if_splits sum.splits)

lemma nsize_visitImportDeclaration:
  "visitImportDeclaration e fp n st = Inr (n', st') \<Longrightarrow> nsize n' = nsize n"
  by (cases n)
    (auto simp: visitImportDeclaration_def dest: nsize_processResolve split: shape.splits sum.splits)

lemma nsize_visit:
  "visit e fp scope n st = Inr (Continue n', st') \<Longrightarrow> nsize n' = nsize n"
  by (auto simp: visit_def processReplaceable_def
      dest: nsize_visitCallExpression nsize_visitImportDeclaration
      split: shape.splits sum.splits option.splits)

lemma visit_children_less:
  assumes "visit e fp scope n st = Inr (Continue n', st')"
  shows "Suc (2 * sum_list (map nsize (children n'))) < 2 * nsize n"
proof -
  from assms have "nsize n' = nsize n" by (rule nsize_visit)
  with nsize_children [of n'] show ?thesis by simp
qed

subsection \<open>The walk\<close>

text \<open>
  \<^verbatim>\<open>traverse(ast, visitors)\<close> of babel-traverse: the walk is depth first and enters a
  node before its children; the visitor sees the scope of its path, which holds the
  bindings of the node and of the nodes around it. The children walked are those of
  the node as the visitor left it. The node that \<^verbatim>\<open>replaceWith\<close> puts in place is a
  literal: it has no children and no visitor applies to it.
\<close>

function traverse ::
    "'s env \<Rightarrow> string \<Rightarrow> string list \<Rightarrow> node \<Rightarrow> 's state \<Rightarrow> error + (node \<times> 's state)"
  and traverse_list ::
    "'s env \<Rightarrow> string \<Rightarrow> string list \<Rightarrow> node list \<Rightarrow> 's state \<Rightarrow> error + (node list \<times> 's state)"
where
  "traverse e fp scope n st =
     (case visit e fp (bindings n @ scope) n st of
        Inl err \<Rightarrow> Inl err
      | Inr (Replaced n', st') \<Rightarrow> Inr (n', st')
      | Inr (Continue n', st') \<Rightarrow>
          (case traverse_list e fp (bindings n @ scope) (children n') st' of
             Inl err \<Rightarrow> Inl err
           | Inr (ks, st'') \<Rightarrow> Inr (with_children n' ks, st'')))"
| "traverse_list e fp scope [] st = Inr ([], st)"
| "traverse_list e fp scope (k # ks) st =
     (case traverse e fp scope k st of
        Inl err \<Rightarrow> Inl err
      | Inr (k', st') \<Rightarrow>
          (case traverse_list e fp scope ks st' of
             Inl err \<Rightarrow> Inl err
           | Inr (ks', st'') \<Rightarrow> Inr (k' # ks', st'')))"
  by pat_completeness auto
termination
proof (relation "measure (\<lambda>x. case x of
          Inl (e, fp, scope, n, st) \<Rightarrow> 2 * nsize n
        | Inr (e, fp, scope, ks, st) \<Rightarrow> Suc (2 * sum_list (map nsize ks)))", goal_cases)
  case 1
  show ?case by simp
next
  case 2
  then show ?case by (auto dest: visit_children_less)
next
  case 3
  then show ?case by simp
next
  case 4
  then show ?case by simp
qed

declare traverse.simps [simp del]

subsection \<open>The loader\<close>

text \<open>
  The function given to \<^verbatim>\<open>createLoader\<close>, lines 26 to 141: \<open>None\<close> is the
  \<^verbatim>\<open>null\<close> of a file that is not processed, \<open>Inl\<close> what the loader throws. The state
  of the compilation after the call is returned with the result.
\<close>

definition loader ::
  "'s env \<Rightarrow> config \<Rightarrow> File \<Rightarrow> 's \<Rightarrow> error + (LoaderResult option \<times> 's)" where
  "loader e cfg file c =
     (if \<not> shouldProcess e (rootDirectory e) (filePath file) cfg then Inr (None, c)
      else
        (case parse e (contents file) (filePath file) of
           Inl err \<Rightarrow>
             (let errorMessage = message err @ '' in '' @ getRelativeFilePath e (filePath file) (rootDirectory e)
              in case loc err of
                   Some (line, column) \<Rightarrow>
                     Inl (FileIssue (contents file) line (column + 1) errorMessage ''error'')
                 | None \<Rightarrow> Inl (MessageIssue errorMessage ''error''))
         | Inr ast \<Rightarrow>
             (case traverse e (filePath file) [] ast \<lparr>file_chunks = [], file_imports = [], cap = c\<rparr> of
                Inl err \<Rightarrow> Inl err
              | Inr (ast', st) \<Rightarrow>
                  Inr (Some \<lparr>file_chunks = file_chunks st, file_imports = file_imports st,
                              result_contents = fst (generate e ast' (filePath file)),
                              sourceMap = snd (generate e ast' (filePath file))\<rparr>,
                       cap st))))"

section \<open>What the claims speak of\<close>

text \<open>
  The requests for a list of raw paths, asked one after the other: what ``one request per
  reference, in order'' means for a capability with a state.
\<close>

fun resolve_all :: "'s env \<Rightarrow> string \<Rightarrow> jsval list \<Rightarrow> 's \<Rightarrow> error + (FileImport list \<times> 's)" where
  "resolve_all e fp [] c = Inr ([], c)"
| "resolve_all e fp (raw # raws) c =
     (case getImportRequest e raw fp c of
        Inl err \<Rightarrow> Inl err
      | Inr (req, c') \<Rightarrow>
          (case resolve_all e fp raws c' of
             Inl err \<Rightarrow> Inl err
           | Inr (reqs, c'') \<Rightarrow> Inr (req # reqs, c'')))"

text \<open>The string form of a request's identifier, as a \<^verbatim>\<open>value\<close>.\<close>

definition id_string :: "FileImport \<Rightarrow> jsval" where
  "id_string req = StrV (toString (import_id req))"

text \<open>
  A node that no visitor acts on: not an import declaration, not a call with a
  recognised name, not an identifier or member expression whose name is in the
  replacement table. A tree is inert when all its nodes are.
\<close>

definition quiet :: "'s env \<Rightarrow> node \<Rightarrow> bool" where
  "quiet e n =
     (case shape n of
        ImportDeclaration specifiers source \<Rightarrow> False
      | CallExpression callee args \<Rightarrow> getName callee \<notin> RESOLVE_NAMES
      | Identifier x \<Rightarrow> replaceVariables e (getName n) = None
      | MemberExpression obj prp \<Rightarrow> replaceVariables e (getName n) = None
      | _ \<Rightarrow> True)"

function inert :: "'s env \<Rightarrow> node \<Rightarrow> bool" where
  "inert e n = (quiet e n \<and> list_all (inert e) (children n))"
  by pat_completeness auto
termination
  by (relation "measure (\<lambda>(e, n). nsize n)") (auto simp: nsize_child)

declare inert.simps [simp del]

text \<open>
  A tree with no call and no import declaration in it; a static import declaration, whose
  specifiers are such trees and whose source is a string literal; and the value of its
  source.
\<close>

function calm :: "node \<Rightarrow> bool" where
  "calm n =
     ((case shape n of
         ImportDeclaration specifiers source \<Rightarrow> False
       | CallExpression callee args \<Rightarrow> False
       | _ \<Rightarrow> True) \<and> list_all calm (children n))"
  by pat_completeness auto
termination
  by (relation "measure nsize") (auto simp: nsize_child)

declare calm.simps [simp del]

definition is_static_import :: "node \<Rightarrow> bool" where
  "is_static_import d =
     (case shape d of
        ImportDeclaration specifiers source \<Rightarrow> list_all calm specifiers \<and> shape source = StringLiteral
      | _ \<Rightarrow> False)"

definition source_val :: "node \<Rightarrow> jsval" where
  "source_val d = (case shape d of ImportDeclaration specifiers source \<Rightarrow> val source | _ \<Rightarrow> Undefined)"

text \<open>
  The value of the first argument of a call whose callee is named \<open>al\<close>, and these
  values for all such calls of a tree, in the order in which the walk enters them.
\<close>

definition alias_argument :: "string option \<Rightarrow> node \<Rightarrow> jsval list" where
  "alias_argument al n =
     (case shape n of
        CallExpression callee args \<Rightarrow>
          (case args of [] \<Rightarrow> [] | a # rest \<Rightarrow> if name_of callee = al then [val a] else [])
      | _ \<Rightarrow> [])"

function alias_raws :: "string option \<Rightarrow> node \<Rightarrow> jsval list" where
  "alias_raws al n = alias_argument al n @ concat (map (alias_raws al) (children n))"
  by pat_completeness auto
termination
  by (relation "measure (\<lambda>(al, n). nsize n)") (auto simp: nsize_child)

declare alias_raws.simps [simp del]

text \<open>
  The tree with the value of the first argument of every call named \<open>al\<close> erased: two
  trees with the same \<open>strip\<close> differ in these values only.
\<close>

definition erase_argument :: "string option \<Rightarrow> node \<Rightarrow> node" where
  "erase_argument al n =
     (case shape n of
        CallExpression callee args \<Rightarrow>
          (case args of
             [] \<Rightarrow> n
           | a # rest \<Rightarrow>
               if name_of callee = al
               then Node (CallExpression callee (set_val a Undefined # rest)) (val n) (bindings n)
               else n)
      | _ \<Rightarrow> n)"

function strip :: "string option \<Rightarrow> node \<Rightarrow> node" where
  "strip al n = erase_argument al (with_children n (map (strip al) (children n)))"
  by pat_completeness auto
termination
  by (relation "measure (\<lambda>(al, n). nsize n)") (auto simp: nsize_child)

declare strip.simps [simp del]

text \<open>Every call named \<open>al\<close> in the tree has a first argument.\<close>

definition has_argument :: "string option \<Rightarrow> node \<Rightarrow> bool" where
  "has_argument al n =
     (case shape n of
        CallExpression callee args \<Rightarrow> name_of callee \<noteq> al \<or> args \<noteq> []
      | _ \<Rightarrow> True)"

function alias_applied :: "string option \<Rightarrow> node \<Rightarrow> bool" where
  "alias_applied al n = (has_argument al n \<and> list_all (alias_applied al) (children n))"
  by pat_completeness auto
termination
  by (relation "measure (\<lambda>(al, n). nsize n)") (auto simp: nsize_child)

declare alias_applied.simps [simp del]

section \<open>Example programs\<close>

text \<open>Trees as Babylon builds them, with no \<^verbatim>\<open>value\<close> but on string literals.\<close>

abbreviation ident :: "string \<Rightarrow> node" where
  "ident x \<equiv> Node (Identifier x) Undefined []"

abbreviation str :: "string \<Rightarrow> node" where
  "str s \<equiv> Node StringLiteral (StrV s) []"

abbreviation member :: "node \<Rightarrow> node \<Rightarrow> node" where
  "member obj prp \<equiv> Node (MemberExpression obj prp) Undefined []"

abbreviation call :: "node \<Rightarrow> node list \<Rightarrow> node" where
  "call callee args \<equiv> Node (CallExpression callee args) Undefined []"




abbreviation stmt :: "node \<Rightarrow> node" where
  "stmt x \<equiv> Node (Other ''ExpressionStatement'' [x]) Undefined []"

abbreviation program :: "node list \<Rightarrow> node" where
  "program body \<equiv> Node (Other ''File'' [Node (Other ''Program'' body) Undefined []]) Undefined []"

abbreviation importDecl :: "node list \<Rightarrow> string \<Rightarrow> node" where
  "importDecl specs src \<equiv> Node (ImportDeclaration specs (str src)) Undefined []"



text \<open>A module whose scope binds \<open>bs\<close>, and the specifier of \<^verbatim>\<open>import x from '...'\<close>.\<close>

abbreviation program_with :: "string list \<Rightarrow> node list \<Rightarrow> node" where
  "program_with bs body \<equiv> Node (Other ''File'' [Node (Other ''Program'' body) Undefined bs]) Undefined []"

abbreviation default_specifier :: "string \<Rightarrow> node" where
  "default_specifier x \<equiv> Node (Other ''ImportDefaultSpecifier'' [ident x]) Undefined []"






text \<open>The first request of a run, and the loader's configuration.\<close>

abbreviation req1 :: "jsval \<Rightarrow> FileImport" where
  "req1 raw \<equiv> \<lparr>import_id = NumId 1, request = raw, from_file = ''/app/a.js''\<rparr>"

abbreviation cfg0 :: config where
  "cfg0 \<equiv> \<lparr>extensions = [''js'', ''jsx'']\<rparr>"

text \<open>
  A compilation to run the loader in: requests and tokens are numbered by one counter,
  which is its state, and the replacement table is \<^verbatim>\<open>{"__DEV__": "false"}\<close>. Its parser
  and its generator know the programs of the examples only.
\<close>

definition demo_sources :: "(string \<times> node) list" where
  "demo_sources =
     [(''import './a';import b from './b';'',
         program_with [''b''] [importDecl [] ''./a'', importDecl [default_specifier ''b''] ''./b'']),
      (''import '1';import b from '2';'',
         program_with [''b''] [importDecl [] ''1'', importDecl [default_specifier ''b''] ''2'']),
      (''import '1';'', program [importDecl [] ''1'']),
      (''foo();'', program [stmt (call (ident ''foo'') [])])]"

definition demo_parse :: "string \<Rightarrow> string \<Rightarrow> parse_error + node" where
  "demo_parse src fp =
     (case map_of demo_sources src of
        Some t \<Rightarrow> Inr t
      | None \<Rightarrow>
          if src = ''var a = 'b''
          then Inl \<lparr>message = ''Unterminated string constant (1:8)'', loc = Some (1, 8)\<rparr>
          else Inl \<lparr>message = ''Unexpected failure'', loc = None\<rparr>)"

definition demo_generate :: "node \<Rightarrow> string \<Rightarrow> string \<times> string" where
  "demo_generate t fp =
     (case map_of (map (\<lambda>(src, t). (t, src)) demo_sources) t of
        Some src \<Rightarrow> (src, ''{}'')
      | None \<Rightarrow> ([], ''{}''))"

definition demo_env :: "int env" where
  "demo_env = \<lparr>
     rootDirectory = ''/app'',
     replaceVariables = [''__DEV__'' \<mapsto> ''false''],
     getImportRequest =
       (\<lambda>raw fp c. Inr (\<lparr>import_id = NumId (c + 1), request = raw, from_file = fp\<rparr>, c + 1)),
     getNextUniqueID = (\<lambda>c. (NumId (c + 1), c + 1)),
     shouldProcess = (\<lambda>root fp cfg. True),
     getRelativeFilePath = (\<lambda>fp root. drop (Suc (length root)) fp),
     parse = demo_parse,
     parseLiteral =
       (\<lambda>src. if src = ''false'' then BooleanLit False
              else if src = ''true'' then BooleanLit True
              else if src = ''null'' then NullLit
              else StringLit src),
     generate = demo_generate\<rparr>"

abbreviation st0 :: "int state" where
  "st0 \<equiv> \<lparr>file_chunks = [], file_imports = [], cap = 0\<rparr>"

lemma digits_small:
  "digits (Suc 0) = ''1''" "digits 2 = ''2''" "digits 3 = ''3''" "digits 4 = ''4''" "digits 5 = ''5''"
  by (simp_all add: digits.simps)

lemma demo_env_fields:
  "rootDirectory demo_env = ''/app''"
  "replaceVariables demo_env = [''__DEV__'' \<mapsto> ''false'']"
  "getImportRequest demo_env raw fp c =
     Inr (\<lparr>import_id = NumId (c + 1), request = raw, from_file = fp\<rparr>, c + 1)"
  "getNextUniqueID demo_env c = (NumId (c + 1), c + 1)"
  "shouldProcess demo_env root fp cfg = True"
  "getRelativeFilePath demo_env fp root = drop (Suc (length root)) fp"
  "parse demo_env = demo_parse"
  "parseLiteral demo_env src =
     (if src = ''false'' then BooleanLit False
      else if src = ''true'' then BooleanLit True
      else if src = ''null'' then NullLit
      else StringLit src)"
  "generate demo_env = demo_generate"
  by (simp_all add: demo_env_def)

lemmas demo_simps = demo_env_fields digits_small toString_def set_val_def node_type_def name_of_def
  at_def hasBinding_def

lemmas walk_simps = traverse.simps visit_def visitCallExpression_def visitImportDeclaration_def
  processResolve_def processReplaceable_def children_def with_children_def
  RESOLVE_NAMES_def RESOLVE_NAMES_SENSITIVE_def RESOLVE_NAMES_CHUNK_def


section \<open>Lemmas\<close>

subsection \<open>Values and children\<close>

lemma children_set_val [simp]: "children (set_val n v) = children n"
  by (simp add: children_def set_val_def)

lemma shape_set_val [simp]: "shape (set_val n v) = shape n"
  by (simp add: set_val_def)

lemma val_set_val [simp]: "val (set_val n v) = v"
  by (simp add: set_val_def)

lemma bindings_set_val [simp]: "bindings (set_val n v) = bindings n"
  by (simp add: set_val_def)

lemma name_of_set_val [simp]: "name_of (set_val n v) = name_of n"
  by (simp add: name_of_def)

lemma set_val_set_val [simp]: "set_val (set_val n v) w = set_val n w"
  by (simp add: set_val_def)

lemma with_children_set_val: "with_children (set_val n v) cs = set_val (with_children n cs) v"
  by (cases n) (simp add: with_children_def set_val_def children_def)

lemma val_with_children [simp]: "val (with_children n cs) = val n"
  by (cases n) (simp add: with_children_def)

lemma name_of_with_children [simp]: "name_of (with_children n cs) = name_of n"
  by (cases n) (auto simp: with_children_def name_of_def split: shape.splits option.splits)

lemma refill_present: "refill es (present es) = es"
  by (induction es) (auto split: option.splits)

lemma with_children_same: "with_children n (children n) = n"
  by (cases n) (auto simp: with_children_def children_def refill_present split: shape.splits option.splits)



subsection \<open>Requests in order\<close>

lemma resolve_all_length: "resolve_all e fp raws c = Inr (reqs, c') \<Longrightarrow> length reqs = length raws"
  by (induction raws arbitrary: c reqs) (auto split: sum.splits)


lemma processResolve_string:
  "processResolve e fp n st = Inr (n', st') \<Longrightarrow>
     \<exists>req. n' = set_val n (StrV (toString (import_id req))) \<and> file_imports st' = file_imports st @ [req]
       \<and> file_chunks st' = file_chunks st"
  by (auto simp: processResolve_def split: sum.splits)

lemma forEach_element_spec:
  "forEach_element e fp es cs = Inr (es', cs') \<Longrightarrow>
     \<exists>reqs. resolve_all e fp (map val (present es)) (snd cs) = Inr (reqs, snd cs')
       \<and> fst cs' = (fst cs)\<lparr>chunk_entry := chunk_entry (fst cs) @ reqs\<rparr>
       \<and> es' = map2 (\<lambda>element req. Some (set_val element (id_string req))) (present es) reqs
       \<and> length reqs = length es"
proof (induction e fp es cs arbitrary: es' cs' rule: forEach_element.induct)
  case (1 e fp cs)
  then show ?case by simp
next
  case (2 e fp es cs)
  then show ?case by simp
next
  case (3 e fp element es cs)
  from "3.prems" obtain req c js where
    a: "getImportRequest e (val element) fp (snd cs) = Inr (req, c)" and
    b: "forEach_element e fp es ((fst cs)\<lparr>chunk_entry := chunk_entry (fst cs) @ [req]\<rparr>, c) = Inr (js, cs')" and
    c: "es' = Some (set_val element (StrV (toString (import_id req)))) # js"
    by (auto split: sum.splits prod.splits)
  from "3.IH" [OF a refl b] obtain reqs where
    r: "resolve_all e fp (map val (present es)) c = Inr (reqs, snd cs')" and
    f: "fst cs' = (fst cs)\<lparr>chunk_entry := chunk_entry (fst cs) @ req # reqs\<rparr>" and
    j: "js = map2 (\<lambda>element req. Some (set_val element (id_string req))) (present es) reqs" and
    l: "length reqs = length es"
    by auto
  show ?case
    by (rule exI [of _ "req # reqs"]) (simp add: a r f j l c id_string_def)
qed

subsection \<open>The nested walk\<close>



lemma alias_argument_set_val [simp]: "alias_argument al (set_val n v) = alias_argument al n"
  by (simp add: alias_argument_def)

lemma alias_raws_set_val [simp]: "alias_raws al (set_val n v) = alias_raws al n"
  by (simp add: alias_raws.simps [of al "set_val n v"] alias_raws.simps [of al n])

lemma erase_argument_set_val: "erase_argument al (set_val n v) = set_val (erase_argument al n) v"
  by (cases n) (simp add: erase_argument_def set_val_def split: shape.splits list.splits)

lemma strip_set_val [simp]: "strip al (set_val n v) = set_val (strip al n) v"
  by (simp add: strip.simps [of al "set_val n v"] strip.simps [of al n] with_children_set_val
      erase_argument_set_val)

lemma val_erase_argument [simp]: "val (erase_argument al n) = val n"
  by (cases n) (simp add: erase_argument_def split: shape.splits list.splits)

lemma name_of_erase_argument [simp]: "name_of (erase_argument al n) = name_of n"
  by (cases n) (auto simp: erase_argument_def name_of_def split: shape.splits list.splits)

lemma name_of_strip [simp]: "name_of (strip al n) = name_of n"
  by (simp add: strip.simps [of al n])

lemma val_strip [simp]: "val (strip al n) = val n"
  by (simp add: strip.simps [of al n])








lemma alias_applied_set_val [simp]: "alias_applied al (set_val n v) = alias_applied al n"
  by (simp add: alias_applied.simps [of al "set_val n v"] alias_applied.simps [of al n] has_argument_def)





subsection \<open>The walk over trees that few visitors act on\<close>

lemma visit_quiet: "quiet e n \<Longrightarrow> visit e fp scope n st = Inr (Continue n, st)"
  by (auto simp: quiet_def visit_def visitCallExpression_def processReplaceable_def split: shape.splits)

lemma inert_unchanged:
  "inert e n \<Longrightarrow> traverse e fp scope n st = Inr (n, st)"
  "list_all (inert e) ks \<Longrightarrow> traverse_list e fp scope ks st = Inr (ks, st)"
proof (induction e fp scope n st and e fp scope ks st rule: traverse_traverse_list.induct)
  case (1 e fp scope n st)
  from "1.prems" have q: "quiet e n" and c: "list_all (inert e) (children n)"
    by (simp_all add: inert.simps [of e n])
  from visit_quiet [OF q] have v: "visit e fp (bindings n @ scope) n st = Inr (Continue n, st)" .
  from "1.IH" [OF v refl refl c]
  have "traverse_list e fp (bindings n @ scope) (children n) st = Inr (children n, st)" .
  with v show ?case by (simp add: traverse.simps [of e fp scope n] with_children_same)
next
  case (2 e fp scope st)
  show ?case by simp
next
  case (3 e fp scope k ks st)
  from "3.prems" have k: "inert e k" and ks: "list_all (inert e) ks" by simp_all
  from "3.IH"(1) [OF k] have a: "traverse e fp scope k st = Inr (k, st)" .
  from "3.IH"(2) [OF a refl ks] a show ?case by simp
qed

lemma traverse_list_length:
  "traverse_list e fp scope ks st = Inr (ks', st') \<Longrightarrow> length ks' = length ks"
  by (induction ks arbitrary: ks' st) (auto split: sum.splits)

lemma traverse_list_append:
  "traverse_list e fp scope (xs @ ys) st =
     (case traverse_list e fp scope xs st of
        Inl err \<Rightarrow> Inl err
      | Inr (xs', st') \<Rightarrow>
          (case traverse_list e fp scope ys st' of
             Inl err \<Rightarrow> Inl err
           | Inr (ys', st'') \<Rightarrow> Inr (xs' @ ys', st'')))"
  by (induction xs arbitrary: st) (auto split: sum.splits)

lemma calm_walk:
  "calm n \<Longrightarrow> \<exists>n'. traverse e fp scope n st = Inr (n', st)"
  "list_all calm ks \<Longrightarrow> \<exists>ks'. traverse_list e fp scope ks st = Inr (ks', st)"
proof (induction e fp scope n st and e fp scope ks st rule: traverse_traverse_list.induct)
  case (1 e fp scope n st)
  from "1.prems" have k: "\<forall>s c. shape n \<noteq> ImportDeclaration s c" "\<forall>f a. shape n \<noteq> CallExpression f a"
    and c: "list_all calm (children n)"
    by (auto simp: calm.simps [of n] split: shape.splits)
  from k have "visit e fp (bindings n @ scope) n st = Inr (Continue n, st)
      \<or> (\<exists>r. visit e fp (bindings n @ scope) n st = Inr (Replaced r, st))"
    by (auto simp: visit_def processReplaceable_def split: shape.splits option.splits)
  then show ?case
  proof
    assume v: "visit e fp (bindings n @ scope) n st = Inr (Continue n, st)"
    from "1.IH" [OF v refl refl c] obtain ks' where
      "traverse_list e fp (bindings n @ scope) (children n) st = Inr (ks', st)" ..
    with v show ?thesis by (simp add: traverse.simps [of e fp scope n])
  next
    assume "\<exists>r. visit e fp (bindings n @ scope) n st = Inr (Replaced r, st)"
    then show ?thesis by (auto simp: traverse.simps [of e fp scope n])
  qed
next
  case (2 e fp scope st)
  show ?case by simp
next
  case (3 e fp scope k ks st)
  from "3.prems" have k: "calm k" and ks: "list_all calm ks" by simp_all
  from "3.IH"(1) [OF k] obtain k' where a: "traverse e fp scope k st = Inr (k', st)" ..
  from "3.IH"(2) [OF a refl ks] a show ?case by auto
qed

lemma literal_walk:
  assumes "shape n = StringLiteral"
  shows "traverse e fp scope n st = Inr (n, st)"
proof -
  from assms have "children n = []" by (simp add: children_def)
  with with_children_same [of n] have "with_children n [] = n" by simp
  with assms \<open>children n = []\<close> show ?thesis
    by (simp add: traverse.simps [of e fp scope n] visit_def)
qed

lemma import_walk:
  assumes "shape d = ImportDeclaration specifiers source"
    and "list_all calm specifiers" and "shape source = StringLiteral"
  shows "traverse e fp scope d st =
     (case getImportRequest e (val source) fp (cap st) of
        Inl err \<Rightarrow> Inl err
      | Inr (req, c) \<Rightarrow>
          Inr (Node (ImportDeclaration
                 (fst (projr (traverse_list e fp (bindings d @ scope) specifiers
                        (st\<lparr>file_imports := file_imports st @ [req], cap := c\<rparr>))))
                 (set_val source (id_string req))) (val d) (bindings d),
               st\<lparr>file_imports := file_imports st @ [req], cap := c\<rparr>))"
proof (cases "getImportRequest e (val source) fp (cap st)")
  case (Inl err)
  with assms(1) show ?thesis
    by (simp add: traverse.simps [of e fp scope d] visit_def visitImportDeclaration_def processResolve_def)
next
  case (Inr p)
  obtain req c where p: "p = (req, c)" by (cases p)
  let ?st = "st\<lparr>file_imports := file_imports st @ [req], cap := c\<rparr>"
  let ?src = "set_val source (id_string req)"
  let ?d = "Node (ImportDeclaration specifiers ?src) (val d) (bindings d)"
  from calm_walk(2) [OF assms(2)] obtain ss where
    ss: "traverse_list e fp (bindings d @ scope) specifiers ?st = Inr (ss, ?st)" ..
  from traverse_list_length [OF ss] have len: "length ss = length specifiers" .
  from assms(3) have "shape ?src = StringLiteral" by (simp add: set_val_def)
  from literal_walk [OF this] have src: "traverse e fp (bindings d @ scope) ?src ?st = Inr (?src, ?st)" .
  from Inr p assms(1) have v: "visit e fp (bindings d @ scope) d st = Inr (Continue ?d, ?st)"
    by (simp add: visit_def visitImportDeclaration_def processResolve_def id_string_def)
  have ch: "children ?d = specifiers @ [?src]" by (simp add: children_def)
  have "traverse_list e fp (bindings d @ scope) (children ?d) ?st = Inr (ss @ [?src], ?st)"
    by (simp add: ch traverse_list_append ss src)
  moreover have "with_children ?d (ss @ [?src]) = Node (ImportDeclaration ss ?src) (val d) (bindings d)"
    by (simp add: with_children_def children_def len)
  ultimately show ?thesis using v Inr p ss
    by (simp add: traverse.simps [of e fp scope d])
qed

lemma imports_walk:
  "list_all is_static_import ds \<Longrightarrow>
   resolve_all e fp (map source_val ds) (cap st) = Inr (reqs, c) \<Longrightarrow>
   \<exists>ds'. traverse_list e fp scope ds st = Inr (ds', st\<lparr>file_imports := file_imports st @ reqs, cap := c\<rparr>)
     \<and> map source_val ds' = map id_string reqs"
proof (induction ds arbitrary: st reqs)
  case Nil
  then show ?case by simp
next
  case (Cons d ds)
  from Cons.prems(1) have "is_static_import d" and ds: "list_all is_static_import ds" by simp_all
  then obtain specifiers source where
    d: "shape d = ImportDeclaration specifiers source" and
    sp: "list_all calm specifiers" and src: "shape source = StringLiteral"
    by (cases "shape d") (auto simp: is_static_import_def)
  from d have sv: "source_val d = val source" by (simp add: source_val_def)
  from Cons.prems(2) sv obtain req c1 reqs' where
    g: "getImportRequest e (val source) fp (cap st) = Inr (req, c1)" and
    r: "resolve_all e fp (map source_val ds) c1 = Inr (reqs', c)" and
    reqs: "reqs = req # reqs'"
    by (auto split: sum.splits)
  let ?st = "st\<lparr>file_imports := file_imports st @ [req], cap := c1\<rparr>"
  let ?ss = "fst (projr (traverse_list e fp (bindings d @ scope) specifiers ?st))"
  let ?d = "Node (ImportDeclaration ?ss (set_val source (id_string req))) (val d) (bindings d)"
  from import_walk [OF d sp src, of e fp scope st] g
  have t: "traverse e fp scope d st = Inr (?d, ?st)" by simp
  from r have "resolve_all e fp (map source_val ds) (cap ?st) = Inr (reqs', c)" by simp
  from Cons.IH [OF ds this] obtain ds' where
    l: "traverse_list e fp scope ds ?st = Inr (ds', ?st\<lparr>file_imports := file_imports ?st @ reqs', cap := c\<rparr>)"
    and m: "map source_val ds' = map id_string reqs'"
    by blast
  have st: "?st\<lparr>file_imports := file_imports ?st @ reqs', cap := c\<rparr>
      = st\<lparr>file_imports := file_imports st @ reqs, cap := c\<rparr>"
    by (simp add: reqs)
  have dv: "source_val ?d = id_string req" by (simp add: source_val_def set_val_def)
  show ?case
    by (rule exI [of _ "?d # ds'"]) (simp add: t l st dv m reqs)
qed

lemma other_walk:
  "traverse e fp scope (Node (Other kind cs) v bs) st =
     (case traverse_list e fp (bs @ scope) cs st of
        Inl err \<Rightarrow> Inl err
      | Inr (ks, st') \<Rightarrow> Inr (Node (Other kind ks) v bs, st'))"
  by (auto simp: traverse.simps [of e fp scope "Node (Other kind cs) v bs"] visit_def children_def
      with_children_def dest: traverse_list_length split: sum.splits)

subsection \<open>processSplit as a whole\<close>




subsection \<open>The examples, evaluated\<close>



section \<open>The claims\<close>

subsection \<open>The scope guard\<close>




subsection \<open>Calls of the wrong shape\<close>




subsection \<open>Chunks\<close>



subsection \<open>The nested walk over the callback\<close>




subsection \<open>What is written into the tree\<close>

text \<open>
  C5. Wherever the loader rewrites a dependency reference, the \<^verbatim>\<open>value\<close> it writes is
  the string form of the identifier of the request it has just recorded, never the
  identifier itself: the source of an import declaration, the first argument of
  \<^verbatim>\<open>require\<close>, \<^verbatim>\<open>require.resolve\<close>, \<^verbatim>\<open>module.hot.accept\<close> and
  \<^verbatim>\<open>module.hot.decline\<close>, the elements of the array of \<^verbatim>\<open>require.ensure\<close>, and
  the first argument of a call of the alias inside its callback.
\<close>

theorem rewritten_to_id_strings:
  "(shape d = ImportDeclaration specifiers source \<and> visit e fp scope d st = Inr (out, st')
      \<longrightarrow> (\<exists>req. out = Continue (Node (ImportDeclaration specifiers
                                (set_val source (StrV (toString (import_id req))))) (val d) (bindings d))
             \<and> file_imports st' = file_imports st @ [req]))
   \<and> (shape n = CallExpression callee (parameter # rest) \<and> getName callee \<in> RESOLVE_NAMES
        \<and> getName callee \<noteq> ''require.ensure'' \<and> node_type parameter = ''StringLiteral''
        \<and> \<not> (getName callee \<in> RESOLVE_NAMES_SENSITIVE \<and> hasBinding scope ''require'')
        \<and> visitCallExpression e fp scope n st = Inr (n', st'')
      \<longrightarrow> (\<exists>req. n' = Node (CallExpression callee
                           (set_val parameter (StrV (toString (import_id req))) # rest)) (val n) (bindings n)
             \<and> file_imports st'' = file_imports st @ [req]))
   \<and> (forEach_element e fp es cs = Inr (es', cs')
      \<longrightarrow> (\<exists>reqs. chunk_entry (fst cs') = chunk_entry (fst cs) @ reqs \<and> length reqs = length es
             \<and> es' = map2 (\<lambda>element req. Some (set_val element (StrV (toString (import_id req)))))
                        (present es) reqs))
   \<and> (shape k = CallExpression f args \<and> name_of f = al \<and> nestedCall e fp al k cs = Inr (k', cs'')
      \<longrightarrow> (\<exists>req a others. args = a # others
             \<and> k' = Node (CallExpression f (set_val a (StrV (toString (import_id req))) # others))
                      (val k) (bindings k)
             \<and> chunk_imports (fst cs'') = chunk_imports (fst cs) @ [req]))"
proof (intro conjI impI)
  assume "shape d = ImportDeclaration specifiers source \<and> visit e fp scope d st = Inr (out, st')"
  then show "\<exists>req. out = Continue (Node (ImportDeclaration specifiers
                                (set_val source (StrV (toString (import_id req))))) (val d) (bindings d))
             \<and> file_imports st' = file_imports st @ [req]"
    by (auto simp: visit_def visitImportDeclaration_def dest!: processResolve_string split: sum.splits)
next
  assume "shape n = CallExpression callee (parameter # rest) \<and> getName callee \<in> RESOLVE_NAMES
        \<and> getName callee \<noteq> ''require.ensure'' \<and> node_type parameter = ''StringLiteral''
        \<and> \<not> (getName callee \<in> RESOLVE_NAMES_SENSITIVE \<and> hasBinding scope ''require'')
        \<and> visitCallExpression e fp scope n st = Inr (n', st'')"
  then show "\<exists>req. n' = Node (CallExpression callee
                           (set_val parameter (StrV (toString (import_id req))) # rest)) (val n) (bindings n)
             \<and> file_imports st'' = file_imports st @ [req]"
    by (auto simp: visitCallExpression_def RESOLVE_NAMES_CHUNK_def dest!: processResolve_string
        split: sum.splits)
next
  assume "forEach_element e fp es cs = Inr (es', cs')"
  from forEach_element_spec [OF this]
  show "\<exists>reqs. chunk_entry (fst cs') = chunk_entry (fst cs) @ reqs \<and> length reqs = length es
             \<and> es' = map2 (\<lambda>element req. Some (set_val element (StrV (toString (import_id req)))))
                        (present es) reqs"
    by (auto simp: id_string_def)
next
  assume "shape k = CallExpression f args \<and> name_of f = al \<and> nestedCall e fp al k cs = Inr (k', cs'')"
  then show "\<exists>req a others. args = a # others
             \<and> k' = Node (CallExpression f (set_val a (StrV (toString (import_id req))) # others))
                      (val k) (bindings k)
             \<and> chunk_imports (fst cs'') = chunk_imports (fst cs) @ [req]"
    by (auto simp: nestedCall_def split: list.splits sum.splits)
qed

theorem rewritten_to_id_strings_witness:
  "visit demo_env ''/app/a.js'' [] (importDecl [] ''./a'') st0
     = Inr (Continue (importDecl [] ''1''), \<lparr>file_chunks = [], file_imports = [req1 (StrV ''./a'')], cap = 1\<rparr>)
   \<and> visitCallExpression demo_env ''/app/a.js'' [] (call (ident ''require'') [str ''./a'']) st0
     = Inr (call (ident ''require'') [str ''1''],
            \<lparr>file_chunks = [], file_imports = [req1 (StrV ''./a'')], cap = 1\<rparr>)
   \<and> forEach_element demo_env ''/app/a.js'' [Some (str ''a'')]
         (\<lparr>chunk_name = StrV ''x'', chunk_entry = [], chunk_imports = []\<rparr>, 0)
     = Inr ([Some (str ''1'')],
            \<lparr>chunk_name = StrV ''x'', chunk_entry = [req1 (StrV ''a'')], chunk_imports = []\<rparr>, 1)
   \<and> nestedCall demo_env ''/app/a.js'' (Some ''req'') (call (ident ''req'') [str ''c''])
         (\<lparr>chunk_name = StrV ''x'', chunk_entry = [], chunk_imports = []\<rparr>, 0)
     = Inr (call (ident ''req'') [str ''1''],
            \<lparr>chunk_name = StrV ''x'', chunk_entry = [], chunk_imports = [req1 (StrV ''c'')]\<rparr>, 1)
   \<and> (\<exists>req. Continue (importDecl [] ''1'')
            = Continue (Node (ImportDeclaration [] (set_val (str ''./a'') (StrV (toString (import_id req)))))
                Undefined [])
        \<and> [req1 (StrV ''./a'')] = [] @ [req])
   \<and> (\<exists>req. call (ident ''require'') [str ''1'']
            = call (ident ''require'') [set_val (str ''./a'') (StrV (toString (import_id req)))]
        \<and> [req1 (StrV ''./a'')] = [] @ [req])
   \<and> (\<exists>reqs. [req1 (StrV ''a'')] = [] @ reqs \<and> length reqs = length [Some (str ''a'')]
        \<and> [Some (str ''1'')]
            = map2 (\<lambda>element req. Some (set_val element (StrV (toString (import_id req)))))
                (present [Some (str ''a'')]) reqs)
   \<and> (\<exists>req a others. [str ''c''] = a # others
        \<and> call (ident ''req'') [str ''1'']
            = call (ident ''req'') (set_val a (StrV (toString (import_id req))) # others)
        \<and> [req1 (StrV ''c'')] = [] @ [req])"
  using rewritten_to_id_strings [where e = demo_env and fp = "''/app/a.js''" and scope = "[]" and st = st0
      and d = "importDecl [] ''./a''" and specifiers = "[]" and source = "str ''./a''"
      and out = "Continue (importDecl [] ''1'')"
      and st' = "\<lparr>file_chunks = [], file_imports = [req1 (StrV ''./a'')], cap = 1\<rparr>"
      and n = "call (ident ''require'') [str ''./a'']" and callee = "ident ''require''"
      and parameter = "str ''./a''" and rest = "[]"
      and n' = "call (ident ''require'') [str ''1'']"
      and st'' = "\<lparr>file_chunks = [], file_imports = [req1 (StrV ''./a'')], cap = 1\<rparr>"
      and es = "[Some (str ''a'')]"
      and cs = "(\<lparr>chunk_name = StrV ''x'', chunk_entry = [], chunk_imports = []\<rparr>, 0)"
      and es' = "[Some (str ''1'')]"
      and cs' = "(\<lparr>chunk_name = StrV ''x'', chunk_entry = [req1 (StrV ''a'')], chunk_imports = []\<rparr>, 1)"
      and k = "call (ident ''req'') [str ''c'']" and f = "ident ''req''" and args = "[str ''c'']"
      and al = "Some ''req''"
      and k' = "call (ident ''req'') [str ''1'']"
      and cs'' = "(\<lparr>chunk_name = StrV ''x'', chunk_entry = [], chunk_imports = [req1 (StrV ''c'')]\<rparr>, 1)"]
  by (simp add: visit_def visitImportDeclaration_def visitCallExpression_def processResolve_def
      nestedCall_def RESOLVE_NAMES_def RESOLVE_NAMES_SENSITIVE_def RESOLVE_NAMES_CHUNK_def demo_simps)

subsection \<open>Replacements\<close>

text \<open>
  C6. With the table \<^verbatim>\<open>{"__DEV__": "false"}\<close> the identifier \<^verbatim>\<open>__DEV__\<close> becomes the
  literal \<^verbatim>\<open>false\<close> and the identifier \<^verbatim>\<open>__dev__\<close> stays. The property access
  \<^verbatim>\<open>foo.__DEV__\<close> is not left as it is, as the claim has it: the member expression is
  named \<^verbatim>\<open>foo.__DEV__\<close> and is kept, but the walk then enters its property, an
  identifier node named \<^verbatim>\<open>__DEV__\<close>, and the \<^verbatim>\<open>Identifier\<close> visitor replaces it.
\<close>

theorem property_name_replaced:
  "traverse demo_env ''/app/a.js'' []
     (program [stmt (member (ident ''foo'') (ident ''__DEV__'')), stmt (ident ''__DEV__''),
               stmt (ident ''__dev__'')]) st0
   = Inr (program [stmt (member (ident ''foo'') (Node (Other ''BooleanLiteral'' []) (BoolV False) [])),
                   stmt (Node (Other ''BooleanLiteral'' []) (BoolV False) []),
                   stmt (ident ''__dev__'')], st0)"
  by (simp add: walk_simps getParsedReplacement_def demo_simps)

subsection \<open>Static imports\<close>

text \<open>
  C7, as amended. For a processed file whose program holds only static import
  declarations: when the capability answers the sources of the declarations, asked in
  the order of the declarations, with the requests \<open>reqs\<close>, the loader returns with
  exactly these requests as its \<^verbatim>\<open>imports\<close>, one for each declaration, no chunk, and
  the contents that the generator prints for the tree in which the source of each
  declaration is the string form of the identifier of its request.
\<close>

theorem static_imports:
  assumes "shouldProcess e (rootDirectory e) (filePath file) cfg"
    and "parse e (contents file) (filePath file) = Inr (Node (Other k1 [Node (Other k2 ds) v2 b2]) v1 b1)"
    and "list_all is_static_import ds"
    and "resolve_all e (filePath file) (map source_val ds) c = Inr (reqs, c')"
  shows "\<exists>ds'. loader e cfg file c =
           Inr (Some \<lparr>file_chunks = [], file_imports = reqs,
                  result_contents =
                    fst (generate e (Node (Other k1 [Node (Other k2 ds') v2 b2]) v1 b1) (filePath file)),
                  sourceMap =
                    snd (generate e (Node (Other k1 [Node (Other k2 ds') v2 b2]) v1 b1) (filePath file))\<rparr>,
                c')
         \<and> length reqs = length ds
         \<and> map source_val ds' = map id_string reqs"
proof -
  let ?st = "\<lparr>file_chunks = [], file_imports = [], cap = c\<rparr>"
  from assms(4) have "resolve_all e (filePath file) (map source_val ds) (cap ?st) = Inr (reqs, c')"
    by simp
  from imports_walk [OF assms(3) this, of "b2 @ b1"] obtain ds' where
    l: "traverse_list e (filePath file) (b2 @ b1) ds ?st
          = Inr (ds', \<lparr>file_chunks = [], file_imports = reqs, cap = c'\<rparr>)" and
    m: "map source_val ds' = map id_string reqs"
    by auto
  from resolve_all_length [OF assms(4)] have n: "length reqs = length ds" by simp
  show ?thesis
    by (rule exI [of _ ds']) (simp add: loader_def assms(1,2) other_walk l m n)
qed

theorem static_imports_witness:
  "\<exists>ds'. loader demo_env cfg0 \<lparr>filePath = ''/app/a.js'', contents = ''import './a';import b from './b';''\<rparr> 0 =
           Inr (Some \<lparr>file_chunks = [],
                  file_imports = [\<lparr>import_id = NumId 1, request = StrV ''./a'', from_file = ''/app/a.js''\<rparr>,
                                  \<lparr>import_id = NumId 2, request = StrV ''./b'', from_file = ''/app/a.js''\<rparr>],
                  result_contents = fst (demo_generate (program_with [''b''] ds') ''/app/a.js''),
                  sourceMap = snd (demo_generate (program_with [''b''] ds') ''/app/a.js'')\<rparr>, 2)
         \<and> map source_val ds' = [StrV ''1'', StrV ''2'']"
  using static_imports [of demo_env "\<lparr>filePath = ''/app/a.js'', contents = ''import './a';import b from './b';''\<rparr>"
      cfg0 "''File''" "''Program''" "[importDecl [] ''./a'', importDecl [default_specifier ''b''] ''./b'']"
      Undefined "[''b'']" Undefined "[]" 0
      "[\<lparr>import_id = NumId 1, request = StrV ''./a'', from_file = ''/app/a.js''\<rparr>,
        \<lparr>import_id = NumId 2, request = StrV ''./b'', from_file = ''/app/a.js''\<rparr>]" 2]
  by (simp add: is_static_import_def calm.simps children_def source_val_def id_string_def
      demo_parse_def demo_sources_def demo_simps)

text \<open>
  C7 as stated fails when a module specifier is the string that an identifier is written
  as: for \<^verbatim>\<open>import '1';\<close> the first request has the identifier 1, and the rewritten
  code is \<^verbatim>\<open>import '1';\<close> again, with the original specifier in it.
\<close>

theorem specifier_kept_counterexample:
  "loader demo_env cfg0 \<lparr>filePath = ''/app/a.js'', contents = ''import '1';''\<rparr> 0
     = Inr (Some \<lparr>file_chunks = [],
                   file_imports = [\<lparr>import_id = NumId 1, request = StrV ''1'', from_file = ''/app/a.js''\<rparr>],
                   result_contents = ''import '1';'', sourceMap = ''{}''\<rparr>, 1)"
  by (simp add: loader_def demo_parse_def demo_generate_def demo_sources_def walk_simps demo_simps)

subsection \<open>Parse failures\<close>

text \<open>
  C8. When Babylon fails on a file that is processed, the loader throws and returns no
  result. With a location in the parser's error it throws a \<^verbatim>\<open>FileIssue\<close> of the
  file's contents, the line, the parser's column plus one, the parser's message
  followed by \<^verbatim>\<open>in\<close> and the relative path, and the severity \<^verbatim>\<open>error\<close>; without a
  location it throws a \<^verbatim>\<open>MessageIssue\<close> of that message and severity.
\<close>

theorem parse_failure_diagnostic:
  assumes "shouldProcess e (rootDirectory e) (filePath file) cfg"
    and "parse e (contents file) (filePath file) = Inl err"
  shows "loader e cfg file c =
     Inl (case loc err of
            Some (line, column) \<Rightarrow>
              FileIssue (contents file) line (column + 1)
                (message err @ '' in '' @ getRelativeFilePath e (filePath file) (rootDirectory e)) ''error''
          | None \<Rightarrow>
              MessageIssue
                (message err @ '' in '' @ getRelativeFilePath e (filePath file) (rootDirectory e)) ''error'')"
  using assms by (simp add: loader_def Let_def split: option.splits)

theorem parse_failure_diagnostic_witness:
  "loader demo_env \<lparr>extensions = [''js'', ''jsx'']\<rparr> \<lparr>filePath = ''/app/a.js'', contents = ''var a = 'b''\<rparr> 0
     = Inl (FileIssue ''var a = 'b'' 1 9 ''Unterminated string constant (1:8) in a.js'' ''error'')
   \<and> loader demo_env \<lparr>extensions = [''js'', ''jsx'']\<rparr> \<lparr>filePath = ''/app/a.js'', contents = ''?''\<rparr> 0
     = Inl (MessageIssue ''Unexpected failure in a.js'' ''error'')"
  using parse_failure_diagnostic [of demo_env "\<lparr>filePath = ''/app/a.js'', contents = ''var a = 'b''\<rparr>"
          "\<lparr>extensions = [''js'', ''jsx'']\<rparr>"
          "\<lparr>message = ''Unterminated string constant (1:8)'', loc = Some (1, 8)\<rparr>" 0]
    parse_failure_diagnostic [of demo_env "\<lparr>filePath = ''/app/a.js'', contents = ''?''\<rparr>"
          "\<lparr>extensions = [''js'', ''jsx'']\<rparr>"
          "\<lparr>message = ''Unexpected failure'', loc = None\<rparr>" 0]
  by (simp add: demo_env_fields demo_parse_def demo_sources_def)

subsection \<open>Running the loader on its output\<close>

text \<open>
  C9. A processed file whose tree has no import declaration, no call with a
  recognised name and no identifier or member expression named in the replacement
  table is walked without a change: the loader returns empty \<^verbatim>\<open>imports\<close> and
  \<^verbatim>\<open>chunks\<close>, the state of the compilation is as it was, and the contents are what
  the generator prints for the tree as it was parsed.
\<close>

theorem inert_file_unchanged:
  assumes "shouldProcess e (rootDirectory e) (filePath file) cfg"
    and "parse e (contents file) (filePath file) = Inr ast"
    and "inert e ast"
  shows "loader e cfg file c =
     Inr (Some \<lparr>file_chunks = [], file_imports = [],
                 result_contents = fst (generate e ast (filePath file)),
                 sourceMap = snd (generate e ast (filePath file))\<rparr>, c)"
  using assms by (simp add: loader_def inert_unchanged(1))

theorem inert_file_unchanged_witness:
  "loader demo_env cfg0 \<lparr>filePath = ''/app/a.js'', contents = ''foo();''\<rparr> 0
     = Inr (Some \<lparr>file_chunks = [], file_imports = [], result_contents = ''foo();'', sourceMap = ''{}''\<rparr>, 0)"
  using inert_file_unchanged [of demo_env "\<lparr>filePath = ''/app/a.js'', contents = ''foo();''\<rparr>" cfg0
      "program [stmt (call (ident ''foo'') [])]" 0]
  by (simp add: inert.simps quiet_def children_def RESOLVE_NAMES_def demo_parse_def demo_generate_def
      demo_sources_def demo_env_fields)

subsection \<open>No check inside the chunk extractor\<close>




end
